theory Spec2Isabelle
  imports Main "HOL-Library.AList"
begin

section \<open>Data model of ResilientWebSocket\<close>

text \<open>
  The wrapper is the class \<^verbatim>\<open>ResilientWebSocket\<close>, in the version that has
  \<^verbatim>\<open>close\<close>, \<^verbatim>\<open>off\<close> and the \<^verbatim>\<open>error\<close> handler. Its fields, the timers it has
  scheduled, the transports its factory has produced and a trace of every call it makes
  on a collaborator (factory, transport, subscriber callback) form one state record.
  Every method is a function from state to state; a method that can throw returns an
  \<open>outcome\<close> that keeps the state reached at the throw, since JavaScript exceptions do
  not undo earlier assignments.
\<close>

subsection \<open>Payloads and the comparison \<^verbatim>\<open>===\<close>\<close>

text \<open>
  \<^verbatim>\<open>pingMessage?: string | object\<close>. A string is a primitive value; an object is a
  reference (its identity, a heap address) together with its own properties.
\<close>

datatype payload = Text string | Object nat "(string \<times> string) list"

text \<open>
  \<^verbatim>\<open>event.data === this.options.pongMessage\<close>: strict equality compares two strings
  by content and two objects by reference; operands of different types are unequal.
\<close>

fun strict_eq :: "payload \<Rightarrow> payload \<Rightarrow> bool" where
  "strict_eq (Text a) (Text b) = (a = b)"
| "strict_eq (Object r _) (Object r' _) = (r = r')"
| "strict_eq _ _ = False"

text \<open>
  The reading of the specification: equality of the tagged variant
  \<open>{Text(string), Structured(value)}\<close>, same variant and same content. The reference
  of an object is not part of its content.
\<close>

fun value_equal :: "payload \<Rightarrow> payload \<Rightarrow> bool" where
  "value_equal (Text a) (Text b) = (a = b)"
| "value_equal (Object _ c) (Object _ c') = (c = c')"
| "value_equal _ _ = False"

subsection \<open>Options\<close>

record options =
  autoJsonify :: bool
  autoConnect :: bool
  reconnectInterval :: nat
  pingEnabled :: bool
  pingInterval :: nat
  pongTimeout :: nat
  pingMessage :: payload
  pongMessage :: payload
  reconnectOnError :: bool

definition defaultOptions :: options where
  "defaultOptions =
     \<lparr> autoJsonify = False, autoConnect = True, reconnectInterval = 1000,
       pingEnabled = False, pingInterval = 10000, pongTimeout = 5000,
       pingMessage = Text ''PING'', pongMessage = Text ''PONG'',
       reconnectOnError = True \<rparr>"

text \<open>
  The caller's options: every field is optional (\<^verbatim>\<open>autoJsonify?: boolean\<close>, ...);
  \<open>None\<close> is an absent property.
\<close>

record given_options =
  given_autoJsonify :: "bool option"
  given_autoConnect :: "bool option"
  given_reconnectInterval :: "nat option"
  given_pingEnabled :: "bool option"
  given_pingInterval :: "nat option"
  given_pongTimeout :: "nat option"
  given_pingMessage :: "payload option"
  given_pongMessage :: "payload option"
  given_reconnectOnError :: "bool option"

definition no_options :: given_options where
  "no_options =
     \<lparr> given_autoJsonify = None, given_autoConnect = None, given_reconnectInterval = None,
       given_pingEnabled = None, given_pingInterval = None, given_pongTimeout = None,
       given_pingMessage = None, given_pongMessage = None, given_reconnectOnError = None \<rparr>"

text \<open>\<^verbatim>\<open>{ ...defaultOptions, ...options }\<close>: a property the caller gives wins.\<close>

definition spread :: "options \<Rightarrow> given_options \<Rightarrow> options" where
  "spread d g =
     \<lparr> autoJsonify = (case given_autoJsonify g of None \<Rightarrow> autoJsonify d | Some v \<Rightarrow> v),
       autoConnect = (case given_autoConnect g of None \<Rightarrow> autoConnect d | Some v \<Rightarrow> v),
       reconnectInterval =
         (case given_reconnectInterval g of None \<Rightarrow> reconnectInterval d | Some v \<Rightarrow> v),
       pingEnabled = (case given_pingEnabled g of None \<Rightarrow> pingEnabled d | Some v \<Rightarrow> v),
       pingInterval = (case given_pingInterval g of None \<Rightarrow> pingInterval d | Some v \<Rightarrow> v),
       pongTimeout = (case given_pongTimeout g of None \<Rightarrow> pongTimeout d | Some v \<Rightarrow> v),
       pingMessage = (case given_pingMessage g of None \<Rightarrow> pingMessage d | Some v \<Rightarrow> v),
       pongMessage = (case given_pongMessage g of None \<Rightarrow> pongMessage d | Some v \<Rightarrow> v),
       reconnectOnError =
         (case given_reconnectOnError g of None \<Rightarrow> reconnectOnError d | Some v \<Rightarrow> v) \<rparr>"

subsection \<open>Events, subscribers, timers, transports\<close>

datatype WebSocketEvent = CONNECTION | MESSAGE | CONNECTING | CLOSE | PONG | ERROR

text \<open>
  What a subscriber callback receives: the wrapper itself (\<^verbatim>\<open>this\<close>), the transport's
  close event, \<^verbatim>\<open>undefined\<close> (\<^verbatim>\<open>onClose()\<close> called by \<^verbatim>\<open>onError\<close>), or a message.
\<close>

datatype arg = This | CloseEvent nat | Undefined | Message payload

text \<open>
  A callback is a function object, identified by a number. What it does when called is
  given by a table from callbacks to bodies. The bodies modelled are those that call
  \<^verbatim>\<open>on\<close> and \<^verbatim>\<open>off\<close> of the wrapper, as the callback of the README does.
\<close>

datatype cb_action = CallOn WebSocketEvent nat | CallOff WebSocketEvent nat

text \<open>
  The platform: the bodies of the callbacks and the two JSON functions, which the wrapper
  calls and does not define. \<open>json_parse\<close> returns \<open>None\<close> where \<^verbatim>\<open>JSON.parse\<close> throws.
\<close>

record platform =
  cb_body :: "nat \<Rightarrow> cb_action list"
  json_stringify :: "payload \<Rightarrow> payload"
  json_parse :: "payload \<Rightarrow> payload option"

text \<open>
  The three closures the wrapper passes to \<^verbatim>\<open>setTimeout\<close>: the one of \<^verbatim>\<open>sendPing\<close>,
  the one inside it that calls \<^verbatim>\<open>pongTimedOut\<close>, and the one of \<^verbatim>\<open>onClose\<close>.
\<close>

datatype timer_action = PingFire | PongFire | Reconnect

text \<open>The four listeners \<^verbatim>\<open>connect\<close> registers on a transport.\<close>

datatype listener = OnOpen | OnMessage | OnClose | OnError

text \<open>The calls the wrapper makes on its collaborators, in order.\<close>

datatype effect =
    Factory string
  | SocketSend nat payload
  | SocketClose nat
  | Called WebSocketEvent nat arg

datatype error = TypeError | SyntaxError | NotConnected

text \<open>
  \<open>TypeError\<close> is what reading a property of \<^verbatim>\<open>undefined\<close> throws and \<open>SyntaxError\<close>
  what \<^verbatim>\<open>JSON.parse\<close> throws. \<open>NotConnected\<close> is the condition the specification names
  for \<^verbatim>\<open>send\<close>; no path of the source raises it.
\<close>

text \<open>
  A \<^verbatim>\<open>Set\<close> of callbacks is its list of entries in insertion order; \<^verbatim>\<open>delete\<close> empties
  an entry in place (\<open>None\<close>), as ECMAScript defines it, so that an iteration in progress
  keeps its position. The \<^verbatim>\<open>Map\<close> from event to set is an association list.
\<close>

type_synonym callback_set = "nat option list"

record state =
  url :: string
  options :: options
  callbacks :: "(WebSocketEvent \<times> callback_set) list"
  socket :: "nat option"
  pongTimeout_timer :: "nat option"
  pingTimeout_timer :: "nat option"
  now :: nat
  timers :: "(nat \<times> nat \<times> timer_action) list"
  next_timer :: nat
  next_socket :: nat
  listeners :: "(nat \<times> listener) list"
  trace :: "effect list"

datatype outcome = Returns state | Throws error state

fun state_of :: "outcome \<Rightarrow> state" where
  "state_of (Returns s) = s"
| "state_of (Throws e s) = s"

section \<open>The platform's primitives\<close>

subsection \<open>\<^verbatim>\<open>Set.prototype.add\<close>, \<^verbatim>\<open>delete\<close>\<close>

definition set_add :: "nat \<Rightarrow> callback_set \<Rightarrow> callback_set" where
  "set_add c es = (if Some c \<in> set es then es else es @ [Some c])"

definition set_delete :: "nat \<Rightarrow> callback_set \<Rightarrow> callback_set" where
  "set_delete c es = map (\<lambda>e. if e = Some c then None else e) es"

text \<open>The callbacks a set holds, in insertion order.\<close>

definition members :: "callback_set \<Rightarrow> nat list" where
  "members es = concat (map (\<lambda>e. case e of None \<Rightarrow> [] | Some c \<Rightarrow> [c]) es)"

subsection \<open>Timers\<close>

text \<open>
  \<^verbatim>\<open>setTimeout\<close> returns a fresh handle and queues the closure at \<open>now + delay\<close>.
  \<^verbatim>\<open>clearTimeout\<close> drops the timer of a handle, if it is still queued, and ignores
  \<^verbatim>\<open>undefined\<close>; \<^verbatim>\<open>clearInterval\<close> clears from the same pool of handles. Durations are
  whole milliseconds.
\<close>

definition setTimeout :: "timer_action \<Rightarrow> nat \<Rightarrow> state \<Rightarrow> nat \<times> state" where
  "setTimeout a delay s =
     (next_timer s,
      s\<lparr>timers := timers s @ [(next_timer s, now s + delay, a)],
        next_timer := next_timer s + 1\<rparr>)"

definition clearTimeout :: "nat option \<Rightarrow> state \<Rightarrow> state" where
  "clearTimeout h s =
     (case h of None \<Rightarrow> s
      | Some t \<Rightarrow> s\<lparr>timers := filter (\<lambda>x. fst x \<noteq> t) (timers s)\<rparr>)"

definition clearInterval :: "nat option \<Rightarrow> state \<Rightarrow> state" where
  "clearInterval h s = clearTimeout h s"

subsection \<open>The transport capability\<close>

text \<open>
  Every call of the factory yields a new transport, numbered in order of creation.
  A transport records which of the wrapper's four handlers are registered on it
  (\<^verbatim>\<open>addEventListener\<close> ignores a handler that is already registered). Its \<^verbatim>\<open>send\<close> and
  \<^verbatim>\<open>close\<close> are opaque: the call is recorded in the trace.
\<close>

definition wsFactory :: "string \<Rightarrow> state \<Rightarrow> nat \<times> state" where
  "wsFactory u s =
     (next_socket s,
      s\<lparr>next_socket := next_socket s + 1, trace := trace s @ [Factory u]\<rparr>)"

definition addEventListener :: "nat \<Rightarrow> listener \<Rightarrow> state \<Rightarrow> state" where
  "addEventListener sock l s =
     (if (sock, l) \<in> set (listeners s) then s
      else s\<lparr>listeners := listeners s @ [(sock, l)]\<rparr>)"

definition removeEventListener :: "nat \<Rightarrow> listener \<Rightarrow> state \<Rightarrow> state" where
  "removeEventListener sock l s = s\<lparr>listeners := removeAll (sock, l) (listeners s)\<rparr>"

definition socket_send :: "nat \<Rightarrow> payload \<Rightarrow> state \<Rightarrow> state" where
  "socket_send sock d s = s\<lparr>trace := trace s @ [SocketSend sock d]\<rparr>"

definition socket_close :: "nat \<Rightarrow> state \<Rightarrow> state" where
  "socket_close sock s = s\<lparr>trace := trace s @ [SocketClose sock]\<rparr>"

section \<open>The methods of ResilientWebSocket\<close>

subsection \<open>\<^verbatim>\<open>on\<close>, \<^verbatim>\<open>off\<close>, \<^verbatim>\<open>respondToCallbacks\<close>\<close>

definition on :: "WebSocketEvent \<Rightarrow> nat \<Rightarrow> state \<Rightarrow> state" where
  "on event callback s =
     (case map_of (callbacks s) event of
        None \<Rightarrow>
          s\<lparr>callbacks := AList.update event (set_add callback []) (callbacks s)\<rparr>
      | Some callbackList \<Rightarrow>
          s\<lparr>callbacks := AList.update event (set_add callback callbackList) (callbacks s)\<rparr>)"

definition off :: "WebSocketEvent \<Rightarrow> nat \<Rightarrow> state \<Rightarrow> state" where
  "off event callback s =
     (case map_of (callbacks s) event of
        None \<Rightarrow> s
      | Some callbackList \<Rightarrow>
          s\<lparr>callbacks := AList.update event (set_delete callback callbackList) (callbacks s)\<rparr>)"

fun run_action :: "cb_action \<Rightarrow> state \<Rightarrow> state" where
  "run_action (CallOn event callback) s = on event callback s"
| "run_action (CallOff event callback) s = off event callback s"

text \<open>\<^verbatim>\<open>callback(data)\<close>: the call is recorded, then the body runs.\<close>

definition call :: "platform \<Rightarrow> WebSocketEvent \<Rightarrow> nat \<Rightarrow> arg \<Rightarrow> state \<Rightarrow> state" where
  "call P event callback data s =
     fold run_action (cb_body P callback) (s\<lparr>trace := trace s @ [Called event callback data]\<rparr>)"

text \<open>
  \<^verbatim>\<open>callbacks.forEach(callback => callback(data))\<close>. ECMAScript's \<^verbatim>\<open>forEach\<close> walks the
  entries of the set by index and reads the number of entries again at every step, so
  it visits an entry added meanwhile and passes over one emptied meanwhile. A callback
  that keeps adding entries keeps the loop running: the result is \<open>None\<close> when the
  loop does not end.
\<close>

partial_function (option) forEach ::
  "platform \<Rightarrow> WebSocketEvent \<Rightarrow> arg \<Rightarrow> nat \<Rightarrow> state \<Rightarrow> state option" where
  "forEach P event data i s =
     (case map_of (callbacks s) event of
        None \<Rightarrow> Some s
      | Some entries \<Rightarrow>
          if i < length entries then
            (case entries ! i of
               None \<Rightarrow> forEach P event data (i + 1) s
             | Some callback \<Rightarrow> forEach P event data (i + 1) (call P event callback data s))
          else Some s)"

declare forEach.simps [code]

definition respondToCallbacks ::
  "platform \<Rightarrow> WebSocketEvent \<Rightarrow> arg \<Rightarrow> state \<Rightarrow> state option" where
  "respondToCallbacks P event data s =
     (case map_of (callbacks s) event of
        None \<Rightarrow> Some s
      | Some cbs \<Rightarrow> forEach P event data 0 s)"

subsection \<open>\<^verbatim>\<open>connect\<close> and the constructor\<close>

definition connect :: "platform \<Rightarrow> state \<Rightarrow> (nat \<times> state) option" where
  "connect P s =
     (case wsFactory (url s) s of (sock, s1) \<Rightarrow>
        (case respondToCallbacks P CONNECTING This s1 of
           None \<Rightarrow> None
         | Some s2 \<Rightarrow>
             Some (sock,
               addEventListener sock OnError
                 (addEventListener sock OnClose
                   (addEventListener sock OnMessage
                     (addEventListener sock OnOpen s2))))))"

definition initial :: "string \<Rightarrow> options \<Rightarrow> state" where
  "initial u opts =
     \<lparr> url = u, options = opts, callbacks = [], socket = None,
       pongTimeout_timer = None, pingTimeout_timer = None,
       now = 0, timers = [], next_timer = 0, next_socket = 0, listeners = [],
       trace = [] \<rparr>"

definition constructor :: "platform \<Rightarrow> string \<Rightarrow> given_options \<Rightarrow> state option" where
  "constructor P u g =
     (let s = initial u (spread defaultOptions g) in
      if autoConnect (options s) then
        (case connect P s of
           None \<Rightarrow> None
         | Some (sock, s') \<Rightarrow> Some (s'\<lparr>socket := Some sock\<rparr>))
      else Some s)"

subsection \<open>\<^verbatim>\<open>send\<close>, \<^verbatim>\<open>close\<close>\<close>

text \<open>
  \<^verbatim>\<open>this.socket.send(...)\<close>: with \<^verbatim>\<open>this.socket\<close> undefined the property read throws
  a TypeError before the argument is evaluated.
\<close>

definition send :: "platform \<Rightarrow> payload \<Rightarrow> state \<Rightarrow> outcome" where
  "send P data s =
     (case socket s of
        None \<Rightarrow> Throws TypeError s
      | Some sock \<Rightarrow>
          Returns (socket_send sock
            (if autoJsonify (options s) then json_stringify P data else data) s))"

definition close :: "platform \<Rightarrow> state \<Rightarrow> outcome option" where
  "close P s =
     (let s1 = clearTimeout (pongTimeout_timer s) s;
          s2 = clearInterval (pingTimeout_timer s1) s1
      in case socket s2 of
           None \<Rightarrow> Some (Throws TypeError s2)
         | Some sock \<Rightarrow>
             (let s3 = removeEventListener sock OnError s2;
                  s4 = removeEventListener sock OnMessage s3;
                  s5 = removeEventListener sock OnOpen s4;
                  s6 = removeEventListener sock OnClose s5;
                  s7 = socket_close sock s6
              in map_option Returns (respondToCallbacks P CLOSE This s7)))"

subsection \<open>The keepalive\<close>

definition sendPing :: "state \<Rightarrow> state" where
  "sendPing s =
     (case setTimeout PingFire (pingInterval (options s)) s of
        (t, s') \<Rightarrow> s'\<lparr>pingTimeout_timer := Some t\<rparr>)"

text \<open>The closure \<^verbatim>\<open>sendPing\<close> queues: send the ping, then queue the pong timeout.\<close>

definition ping_closure :: "platform \<Rightarrow> state \<Rightarrow> outcome" where
  "ping_closure P s =
     (case send P (pingMessage (options s)) s of
        Throws e s' \<Rightarrow> Throws e s'
      | Returns s1 \<Rightarrow>
          (case setTimeout PongFire (pongTimeout (options s1)) s1 of
             (t, s2) \<Rightarrow> Returns (s2\<lparr>pongTimeout_timer := Some t\<rparr>)))"

definition pongTimedOut :: "state \<Rightarrow> outcome" where
  "pongTimedOut s =
     (case socket s of
        None \<Rightarrow> Throws TypeError s
      | Some sock \<Rightarrow> Returns (socket_close sock s))"

definition pongReceived :: "platform \<Rightarrow> state \<Rightarrow> state option" where
  "pongReceived P s =
     (case respondToCallbacks P PONG This (clearTimeout (pongTimeout_timer s) s) of
        None \<Rightarrow> None
      | Some s' \<Rightarrow> Some (sendPing s'))"

subsection \<open>The handlers of the transport's events\<close>

definition onOpen :: "platform \<Rightarrow> state \<Rightarrow> state option" where
  "onOpen P s =
     (case respondToCallbacks P CONNECTION This s of
        None \<Rightarrow> None
      | Some s' \<Rightarrow> Some (if pingEnabled (options s') then sendPing s' else s'))"

text \<open>
  The condition of the \<^verbatim>\<open>if\<close> of \<^verbatim>\<open>onMessage\<close>:
  \<^verbatim>\<open>this.options.pingEnabled && event.data === this.options.pongMessage\<close>.
\<close>

definition is_pong :: "options \<Rightarrow> payload \<Rightarrow> bool" where
  "is_pong opts data \<longleftrightarrow> pingEnabled opts \<and> strict_eq data (pongMessage opts)"

definition onMessage :: "platform \<Rightarrow> payload \<Rightarrow> state \<Rightarrow> outcome option" where
  "onMessage P data s =
     (if is_pong (options s) data then
        map_option Returns (pongReceived P s)
      else if autoJsonify (options s) then
        (case json_parse P data of
           None \<Rightarrow> Some (Throws SyntaxError s)
         | Some message \<Rightarrow>
             map_option Returns (respondToCallbacks P MESSAGE (Message message) s))
      else map_option Returns (respondToCallbacks P MESSAGE (Message data) s))"

text \<open>The closure \<^verbatim>\<open>onClose\<close> queues: \<^verbatim>\<open>this.socket = this.connect()\<close>.\<close>

definition reconnect_closure :: "platform \<Rightarrow> state \<Rightarrow> state option" where
  "reconnect_closure P s =
     (case connect P s of
        None \<Rightarrow> None
      | Some (sock, s') \<Rightarrow> Some (s'\<lparr>socket := Some sock\<rparr>))"

definition onClose :: "platform \<Rightarrow> arg \<Rightarrow> state \<Rightarrow> state option" where
  "onClose P event s =
     (case respondToCallbacks P CLOSE event s of
        None \<Rightarrow> None
      | Some s1 \<Rightarrow>
          (let s2 = clearInterval (pingTimeout_timer s1) s1;
               s3 = clearTimeout (pongTimeout_timer s2) s2
           in Some (snd (setTimeout Reconnect (reconnectInterval (options s3)) s3))))"

definition onError :: "platform \<Rightarrow> state \<Rightarrow> state option" where
  "onError P s =
     (case respondToCallbacks P ERROR This s of
        None \<Rightarrow> None
      | Some s' \<Rightarrow>
          if reconnectOnError (options s') then onClose P Undefined s' else Some s')"

section \<open>The environment: the clock and the transport's events\<close>

text \<open>
  The first queued timer with the least due time: timers due at the same time run in
  the order they were queued.
\<close>

fun earliest :: "(nat \<times> nat \<times> timer_action) list \<Rightarrow> (nat \<times> nat \<times> timer_action) option" where
  "earliest [] = None"
| "earliest (t # ts) =
     (case earliest ts of
        None \<Rightarrow> Some t
      | Some t' \<Rightarrow> if fst (snd t') < fst (snd t) then Some t' else Some t)"

fun fire :: "platform \<Rightarrow> timer_action \<Rightarrow> state \<Rightarrow> outcome option" where
  "fire P PingFire s = Some (ping_closure P s)"
| "fire P PongFire s = Some (pongTimedOut s)"
| "fire P Reconnect s = map_option Returns (reconnect_closure P s)"

text \<open>
  Advancing the clock to \<open>target\<close> runs the timers due by then, earliest first, each at its
  due time and removed from the queue before it runs; a timer queued by a closure runs in
  the same advance when it is due by \<open>target\<close>. An exception a closure throws is not
  caught by the wrapper: the state it reached stays and the clock goes on.
\<close>

partial_function (option) run_until :: "platform \<Rightarrow> nat \<Rightarrow> state \<Rightarrow> state option" where
  "run_until P target s =
     (case earliest (filter (\<lambda>x. fst (snd x) \<le> target) (timers s)) of
        None \<Rightarrow> Some (s\<lparr>now := target\<rparr>)
      | Some (t, due, a) \<Rightarrow>
          (case fire P a (s\<lparr>now := due, timers := filter (\<lambda>x. fst x \<noteq> t) (timers s)\<rparr>) of
             None \<Rightarrow> None
           | Some r \<Rightarrow> run_until P target (state_of r)))"

declare run_until.simps [code]

definition tick :: "platform \<Rightarrow> nat \<Rightarrow> state \<Rightarrow> state option" where
  "tick P ms s = run_until P (now s + ms) s"

text \<open>
  An event of transport \<open>sock\<close> reaches the wrapper's handler when that handler is
  registered on \<open>sock\<close>, and nothing otherwise.
\<close>

datatype transport_event = Open | Msg payload | Closed nat | Errored

fun dispatch :: "platform \<Rightarrow> nat \<Rightarrow> transport_event \<Rightarrow> state \<Rightarrow> outcome option" where
  "dispatch P sock Open s =
     (if (sock, OnOpen) \<in> set (listeners s) then map_option Returns (onOpen P s)
      else Some (Returns s))"
| "dispatch P sock (Msg data) s =
     (if (sock, OnMessage) \<in> set (listeners s) then onMessage P data s
      else Some (Returns s))"
| "dispatch P sock (Closed e) s =
     (if (sock, OnClose) \<in> set (listeners s) then map_option Returns (onClose P (CloseEvent e) s)
      else Some (Returns s))"
| "dispatch P sock Errored s =
     (if (sock, OnError) \<in> set (listeners s) then map_option Returns (onError P s)
      else Some (Returns s))"

text \<open>
  An execution is a sequence of steps: the caller's calls of the public methods, the
  events of the transports, and advances of the clock.
\<close>

datatype step =
    DoConnect
  | DoSend payload
  | DoClose
  | DoOn WebSocketEvent nat
  | DoOff WebSocketEvent nat
  | Event nat transport_event
  | Tick nat

fun perform :: "platform \<Rightarrow> step \<Rightarrow> state \<Rightarrow> outcome option" where
  "perform P DoConnect s = map_option (\<lambda>(sock, s'). Returns s') (connect P s)"
| "perform P (DoSend data) s = Some (send P data s)"
| "perform P DoClose s = close P s"
| "perform P (DoOn event callback) s = Some (Returns (on event callback s))"
| "perform P (DoOff event callback) s = Some (Returns (off event callback s))"
| "perform P (Event sock e) s = dispatch P sock e s"
| "perform P (Tick ms) s = map_option Returns (tick P ms s)"

fun execute :: "platform \<Rightarrow> step list \<Rightarrow> state \<Rightarrow> state option" where
  "execute P [] s = Some s"
| "execute P (x # xs) s =
     (case perform P x s of
        None \<Rightarrow> None
      | Some r \<Rightarrow> execute P xs (state_of r))"

subsection \<open>Observations on the trace\<close>

definition factory_calls :: "state \<Rightarrow> nat" where
  "factory_calls s = length (filter (\<lambda>e. case e of Factory u \<Rightarrow> True | _ \<Rightarrow> False) (trace s))"

definition sends :: "state \<Rightarrow> (nat \<times> payload) list" where
  "sends s = concat (map (\<lambda>e. case e of SocketSend k d \<Rightarrow> [(k, d)] | _ \<Rightarrow> []) (trace s))"

definition closes :: "state \<Rightarrow> nat list" where
  "closes s = concat (map (\<lambda>e. case e of SocketClose k \<Rightarrow> [k] | _ \<Rightarrow> []) (trace s))"

definition calls :: "WebSocketEvent \<Rightarrow> state \<Rightarrow> (nat \<times> arg) list" where
  "calls event s =
     concat (map (\<lambda>e. case e of Called ev c a \<Rightarrow> (if ev = event then [(c, a)] else []) | _ \<Rightarrow> [])
       (trace s))"

text \<open>A platform whose callbacks have empty bodies, and whose JSON functions leave text as it is.\<close>

definition plain :: platform where
  "plain = \<lparr> cb_body = (\<lambda>c. []), json_stringify = (\<lambda>d. d), json_parse = (\<lambda>d. Some d) \<rparr>"

subsection \<open>Subscribers\<close>

definition subscribers :: "WebSocketEvent \<Rightarrow> state \<Rightarrow> nat list" where
  "subscribers event s =
     (case map_of (callbacks s) event of None \<Rightarrow> [] | Some es \<Rightarrow> members es)"

fun action_event :: "cb_action \<Rightarrow> WebSocketEvent" where
  "action_event (CallOn event callback) = event"
| "action_event (CallOff event callback) = event"

text \<open>
  No subscriber of \<open>event\<close> calls \<^verbatim>\<open>on\<close> or \<^verbatim>\<open>off\<close> for \<open>event\<close> itself
  (it may for other events).
\<close>

definition quiet :: "platform \<Rightarrow> WebSocketEvent \<Rightarrow> state \<Rightarrow> bool" where
  "quiet P event s =
     list_all (\<lambda>c. list_all (\<lambda>a. action_event a \<noteq> event) (cb_body P c)) (subscribers event s)"

text \<open>
  The emission as the specification words it: every callback registered when the
  emission starts is invoked, in registration order, over a snapshot of the set.
\<close>

definition emit_snapshot :: "platform \<Rightarrow> WebSocketEvent \<Rightarrow> arg \<Rightarrow> state \<Rightarrow> state" where
  "emit_snapshot P event data s = fold (\<lambda>c. call P event c data) (subscribers event s) s"

text \<open>What an emission may change: the registry, and the trace by calls of subscribers.\<close>

definition frame :: "WebSocketEvent \<Rightarrow> arg \<Rightarrow> state \<Rightarrow> state \<Rightarrow> bool" where
  "frame e d s s' \<longleftrightarrow>
     (\<exists>cbs cs. s' = s\<lparr>callbacks := cbs, trace := trace s @ map (\<lambda>c. Called e c d) cs\<rparr>)"

text \<open>Every set of the registry holds each callback once.\<close>

definition sets_ok :: "state \<Rightarrow> bool" where
  "sets_ok s \<longleftrightarrow> (\<forall>e. distinct (subscribers e s))"

section \<open>Example platforms and states\<close>

text \<open>
  The wrapper of the tests: \<^verbatim>\<open>new ResilientWebSocket('ws://localhost', {}, factory)\<close>,
  connected to transport 0.
\<close>

definition connected :: state where
  "connected =
     \<lparr> url = ''ws://localhost'', options = defaultOptions, callbacks = [], socket = Some 0,
       pongTimeout_timer = None, pingTimeout_timer = None,
       now = 0, timers = [], next_timer = 0, next_socket = 1,
       listeners = [(0, OnOpen), (0, OnMessage), (0, OnClose), (0, OnError)],
       trace = [Factory ''ws://localhost''] \<rparr>"

text \<open>Two subscribers of \<open>CONNECTION\<close>, callbacks 0 and 1, registered in this order.\<close>

definition two_subscribers :: state where
  "two_subscribers = on CONNECTION 1 (on CONNECTION 0 connected)"

text \<open>
  Callback 0 unregisters callback 1 and registers callback 2, both for \<open>CONNECTION\<close>.
\<close>

definition mutating :: platform where
  "mutating =
     \<lparr> cb_body = (\<lambda>c. if c = 0 then [CallOff CONNECTION 1, CallOn CONNECTION 2] else []),
       json_stringify = (\<lambda>d. d), json_parse = (\<lambda>d. Some d) \<rparr>"

text \<open>
  The callback of the README: when called for \<open>CONNECTION\<close>, callback 0 registers callback 5
  for \<open>MESSAGE\<close>.
\<close>

definition readme :: platform where
  "readme =
     \<lparr> cb_body = (\<lambda>c. if c = 0 then [CallOn MESSAGE 5] else []),
       json_stringify = (\<lambda>d. d), json_parse = (\<lambda>d. Some d) \<rparr>"

text \<open>
  The wrapper constructed with \<^verbatim>\<open>{ autoConnect: false }\<close>: no transport, no handle.
\<close>

definition idle :: state where
  "idle = initial ''ws://localhost'' (defaultOptions\<lparr>autoConnect := False\<rparr>)"

text \<open>
  A connected wrapper with the keepalive enabled and an object as pong message; callback
  3 subscribes to \<open>MESSAGE\<close> and callback 4 to \<open>PONG\<close>.
\<close>

definition pong_object :: payload where
  "pong_object = Object 1 [(''type'', ''pong'')]"

definition structured :: state where
  "structured =
     connected\<lparr>options := defaultOptions\<lparr>pingEnabled := True, pongMessage := pong_object\<rparr>,
       callbacks := [(MESSAGE, [Some 3]), (PONG, [Some 4])]\<rparr>"

text \<open>The same, with the default pong message \<open>'PONG'\<close>.\<close>

definition textual :: state where
  "textual =
     connected\<lparr>options := defaultOptions\<lparr>pingEnabled := True\<rparr>,
       callbacks := [(MESSAGE, [Some 3]), (PONG, [Some 4])]\<rparr>"

text \<open>
  The connected wrapper with callback 9 subscribed to \<open>CLOSE\<close>, and the state one call of
  \<^verbatim>\<open>close()\<close> leaves it in.
\<close>

definition watched :: state where
  "watched = connected\<lparr>callbacks := [(CLOSE, [Some 9])]\<rparr>"

definition closed_once :: state where
  "closed_once =
     watched\<lparr>listeners := [],
       trace := [Factory ''ws://localhost'', SocketClose 0, Called CLOSE 9 This]\<rparr>"


definition pinging :: state where
  "pinging =
     connected\<lparr>options := defaultOptions\<lparr>pingEnabled := True, pingInterval := 50,
       pongTimeout := 50, pingMessage := Text ''PINGME'', pongMessage := Text ''PONGYOU''\<rparr>\<rparr>"


text \<open>
  The wrapper \<open>pinging\<close> with callback 4 subscribed to \<open>PONG\<close>, at time 60: the transport
  opened at 0, the ping went out at 50, and its pong timeout is due at 100.
\<close>

definition awaiting :: state where
  "awaiting =
     pinging\<lparr>callbacks := [(PONG, [Some 4])], pongTimeout_timer := Some 1,
       pingTimeout_timer := Some 0, now := 60, timers := [(1, 100, PongFire)], next_timer := 2,
       trace := [Factory ''ws://localhost'', SocketSend 0 (Text ''PINGME'')]\<rparr>"

text \<open>
  An execution in which the server answers the ping sent at 50 twice, at 60 and at 70.
\<close>

definition answered_twice :: "step list" where
  "answered_twice =
     [Event 0 Open, Tick 50, Tick 10, Event 0 (Msg (Text ''PONGYOU'')),
      Tick 10, Event 0 (Msg (Text ''PONGYOU''))]"

text \<open>
  Callback 0 unregisters callback 1 and registers it again, both for \<open>CONNECTION\<close>.
\<close>

definition reregistering :: platform where
  "reregistering =
     \<lparr> cb_body = (\<lambda>c. if c = 0 then [CallOff CONNECTION 1, CallOn CONNECTION 1] else []),
       json_stringify = (\<lambda>d. d), json_parse = (\<lambda>d. Some d) \<rparr>"


section \<open>Properties of the subscriber registry\<close>

lemmas model_defs =
  constructor_def initial_def spread_def defaultOptions_def no_options_def connect_def
  wsFactory_def respondToCallbacks_def addEventListener_def removeEventListener_def
  socket_close_def socket_send_def close_def clearTimeout_def clearInterval_def
  setTimeout_def onClose_def onError_def onOpen_def onMessage_def pongReceived_def
  pongTimedOut_def ping_closure_def sendPing_def send_def reconnect_closure_def tick_def
  on_def off_def call_def set_add_def set_delete_def members_def subscribers_def
  factory_calls_def sends_def closes_def calls_def plain_def is_pong_def

lemma map_of_on:
  "map_of (callbacks (on e c s)) e' =
     (if e' = e
      then Some (set_add c (case map_of (callbacks s) e of None \<Rightarrow> [] | Some es \<Rightarrow> es))
      else map_of (callbacks s) e')"
  by (simp add: on_def update_conv' split: option.splits)

lemma map_of_off:
  "map_of (callbacks (off e c s)) e' =
     (if e' = e then map_option (set_delete c) (map_of (callbacks s) e)
      else map_of (callbacks s) e')"
  by (simp add: off_def update_conv' split: option.splits)

lemma run_action_other:
  "action_event a \<noteq> e \<Longrightarrow> map_of (callbacks (run_action a s)) e = map_of (callbacks s) e"
  by (cases a) (simp_all add: map_of_on map_of_off)

lemma fold_run_action_other:
  "list_all (\<lambda>a. action_event a \<noteq> e) as \<Longrightarrow>
     map_of (callbacks (fold run_action as s)) e = map_of (callbacks s) e"
  by (induction as arbitrary: s) (simp_all add: run_action_other)

lemma call_other:
  "list_all (\<lambda>a. action_event a \<noteq> e) (cb_body P c) \<Longrightarrow>
     map_of (callbacks (call P e c d s)) e = map_of (callbacks s) e"
  by (simp add: call_def fold_run_action_other)

lemma members_drop:
  "i < length es \<Longrightarrow>
     members (drop i es) = (case es ! i of None \<Rightarrow> [] | Some c \<Rightarrow> [c]) @ members (drop (Suc i) es)"
  by (simp add: members_def Cons_nth_drop_Suc[symmetric])

lemma members_append: "members (xs @ ys) = members xs @ members ys"
  by (simp add: members_def)

lemma set_members: "set (members es) = {c. Some c \<in> set es}"
  by (induction es) (auto simp: members_def split: option.splits)

text \<open>
  When no subscriber of the event touches the event's own set, the loop from entry \<open>i\<close>
  ends and has called the members from \<open>i\<close> on, in order.
\<close>

lemma forEach_quiet:
  assumes "map_of (callbacks s) e = Some es"
    and "list_all (\<lambda>c. list_all (\<lambda>a. action_event a \<noteq> e) (cb_body P c)) (members es)"
  shows "forEach P e d i s = Some (fold (\<lambda>c. call P e c d) (members (drop i es)) s)"
  using assms
proof (induction "length es - i" arbitrary: i s)
  case 0
  then show ?case by (subst forEach.simps) (simp add: members_def)
next
  case (Suc n)
  then have i: "i < length es" by simp
  show ?case
  proof (cases "es ! i")
    case None
    have "forEach P e d i s = forEach P e d (i + 1) s"
      by (subst forEach.simps) (simp add: Suc.prems i None)
    also have "\<dots> = Some (fold (\<lambda>c. call P e c d) (members (drop (i + 1) es)) s)"
      using Suc.hyps Suc.prems by (intro Suc.hyps(1)) simp_all
    finally show ?thesis by (simp add: members_drop[OF i] None)
  next
    case (Some c)
    have "c \<in> set (members es)"
      using i Some by (auto simp: set_members) (metis nth_mem)
    then have q: "list_all (\<lambda>a. action_event a \<noteq> e) (cb_body P c)"
      using Suc.prems(2) by (simp add: list_all_iff)
    have m: "map_of (callbacks (call P e c d s)) e = Some es"
      by (simp add: call_other[OF q] Suc.prems)
    have "forEach P e d i s = forEach P e d (i + 1) (call P e c d s)"
      by (subst forEach.simps) (simp add: Suc.prems i Some)
    also have "\<dots> = Some (fold (\<lambda>c. call P e c d) (members (drop (i + 1) es)) (call P e c d s))"
      using Suc.hyps Suc.prems m by (intro Suc.hyps(1)) simp_all
    finally show ?thesis by (simp add: members_drop[OF i] Some)
  qed
qed

lemma respond_quiet:
  "quiet P e s \<Longrightarrow> respondToCallbacks P e d s = Some (emit_snapshot P e d s)"
  by (cases "map_of (callbacks s) e")
     (simp_all add: respondToCallbacks_def emit_snapshot_def subscribers_def quiet_def forEach_quiet)

lemma trace_run_action: "trace (run_action a s) = trace s"
  by (cases a) (simp_all add: on_def off_def split: option.splits)

lemma trace_fold_run_action: "trace (fold run_action as s) = trace s"
  by (induction as arbitrary: s) (simp_all add: trace_run_action)

lemma trace_call: "trace (call P e c d s) = trace s @ [Called e c d]"
  by (simp add: call_def trace_fold_run_action)

lemma trace_fold_call:
  "trace (fold (\<lambda>c. call P e c d) cs s) = trace s @ map (\<lambda>c. Called e c d) cs"
  by (induction cs arbitrary: s) (simp_all add: trace_call)

lemma trace_emit_snapshot:
  "trace (emit_snapshot P e d s) = trace s @ map (\<lambda>c. Called e c d) (subscribers e s)"
  by (simp add: emit_snapshot_def trace_fold_call)

lemma on_on: "on e c (on e c s) = on e c s"
  by (cases "map_of (callbacks s) e") (simp_all add: on_def update_conv' set_add_def)

lemma set_delete_absent: "Some c \<notin> set es \<Longrightarrow> set_delete c es = es"
  by (induction es) (auto simp: set_delete_def)

lemma off_absent: "c \<notin> set (subscribers e s) \<Longrightarrow> off e c s = s"
  by (cases "map_of (callbacks s) e")
     (simp_all add: off_def subscribers_def set_members set_delete_absent update_triv)

lemma subscribers_on:
  "subscribers e' (on e c s) =
     (if e' = e
      then (if c \<in> set (subscribers e s) then subscribers e s else subscribers e s @ [c])
      else subscribers e' s)"
  by (auto simp: subscribers_def map_of_on set_add_def set_members members_append members_def
      split: option.splits)

lemma count_distinct: "distinct xs \<Longrightarrow> c \<in> set xs \<Longrightarrow> count_list xs c = 1"
  by (induction xs) auto

lemma count_on: "distinct (subscribers e s) \<Longrightarrow> count_list (subscribers e (on e c s)) c = 1"
  by (simp add: subscribers_on count_distinct)

lemma two_subscribers_eq:
  "two_subscribers = connected\<lparr>callbacks := [(CONNECTION, [Some 0, Some 1])]\<rparr>"
  by (simp add: two_subscribers_def connected_def on_def set_add_def)

lemma count_list_Called:
  "count_list (map (\<lambda>c. Called e c d) cs) (Called e c d) = count_list cs c"
  by (induction cs) auto

text \<open>
  C6, as amended. Registration is idempotent per (event, callback) pair:
  \<^verbatim>\<open>on(event, callback)\<close> called twice leaves the registry, and with it the whole
  state, as one call leaves it; \<^verbatim>\<open>off(event, callback)\<close> of a callback that is not
  registered changes nothing. So a callback registered twice is in the set once; and when
  no subscriber of the event registers or unregisters a callback for that same event
  during the emission, an emission of the event returns and calls it exactly once. That
  the set of the event holds each callback once is true of every state of an execution
  (lemma \<open>reachable_distinct\<close> below).
\<close>

theorem registration_idempotent:
  "on event callback (on event callback s) = on event callback s
   \<and> (callback \<notin> set (subscribers event s) \<longrightarrow> off event callback s = s)
   \<and> (distinct (subscribers event s) \<and> quiet P event (on event callback s) \<longrightarrow>
        count_list (subscribers event (on event callback (on event callback s))) callback = 1
        \<and> (\<exists>s'. respondToCallbacks P event data (on event callback (on event callback s)) = Some s'
              \<and> count_list (trace s') (Called event callback data)
                  = count_list (trace s) (Called event callback data) + 1))"
proof (intro conjI impI)
  show "on event callback (on event callback s) = on event callback s"
    by (rule on_on)
next
  assume "callback \<notin> set (subscribers event s)"
  then show "off event callback s = s"
    by (rule off_absent)
next
  assume h: "distinct (subscribers event s) \<and> quiet P event (on event callback s)"
  then show "count_list (subscribers event (on event callback (on event callback s))) callback = 1"
    by (simp add: on_on count_on)
next
  assume h: "distinct (subscribers event s) \<and> quiet P event (on event callback s)"
  let ?s = "on event callback s"
  have r: "respondToCallbacks P event data ?s = Some (emit_snapshot P event data ?s)"
    using h by (simp add: respond_quiet)
  have t: "trace ?s = trace s"
    by (simp add: on_def split: option.splits)
  have "count_list (trace (emit_snapshot P event data ?s)) (Called event callback data)
          = count_list (trace s) (Called event callback data) + 1"
    using h by (simp add: trace_emit_snapshot t count_list_Called count_on)
  with r show "\<exists>s'. respondToCallbacks P event data (on event callback ?s) = Some s'
       \<and> count_list (trace s') (Called event callback data)
           = count_list (trace s) (Called event callback data) + 1"
    by (simp add: on_on)
qed

theorem registration_idempotent_witness:
  "on CONNECTION 1 (on CONNECTION 1 (on CONNECTION 0 connected)) = two_subscribers
   \<and> off CONNECTION 1 (on CONNECTION 0 connected) = on CONNECTION 0 connected
   \<and> count_list (subscribers CONNECTION (on CONNECTION 1 two_subscribers)) 1 = 1
   \<and> (\<exists>s'. respondToCallbacks readme CONNECTION This (on CONNECTION 1 two_subscribers) = Some s'
         \<and> count_list (trace s') (Called CONNECTION 1 This) = 1)"
proof -
  have a: "1 \<notin> set (subscribers CONNECTION (on CONNECTION 0 connected))"
    by (simp add: connected_def model_defs)
  have b: "distinct (subscribers CONNECTION (on CONNECTION 0 connected))
      \<and> quiet readme CONNECTION (on CONNECTION 1 (on CONNECTION 0 connected))"
    by (simp add: connected_def readme_def quiet_def model_defs)
  have c: "count_list (trace (on CONNECTION 0 connected)) (Called CONNECTION 1 This) = 0"
    by (simp add: connected_def model_defs)
  show ?thesis
    using a b c
      registration_idempotent [of CONNECTION 1 "on CONNECTION 0 connected" readme This]
    by (simp add: two_subscribers_def on_on)
qed

text \<open>
  C6, as the claim states it, fails: a callback registered twice does not fire exactly
  once in every emission. Callback 1 is registered twice for \<open>CONNECTION\<close>. When
  callback 0, registered before it, unregisters callback 1 and registers callback 2, the
  emission does not call callback 1 at all. When callback 0, registered after it,
  unregisters callback 1 and registers it again, the emission calls callback 1, then
  callback 0, then callback 1 a second time.
\<close>

theorem registration_once_counterexample:
  "on CONNECTION 1 (on CONNECTION 1 (on CONNECTION 0 connected)) = two_subscribers
   \<and> subscribers CONNECTION two_subscribers = [0, 1]
   \<and> map_option (\<lambda>s. count_list (trace s) (Called CONNECTION 1 This))
         (respondToCallbacks mutating CONNECTION This two_subscribers) = Some 0
   \<and> subscribers CONNECTION (on CONNECTION 0 (on CONNECTION 1 (on CONNECTION 1 connected))) = [1, 0]
   \<and> map_option (calls CONNECTION)
         (respondToCallbacks reregistering CONNECTION This
            (on CONNECTION 0 (on CONNECTION 1 (on CONNECTION 1 connected))))
       = Some [(1, This), (0, This), (1, This)]
   \<and> map_option (\<lambda>s. count_list (trace s) (Called CONNECTION 1 This))
         (respondToCallbacks reregistering CONNECTION This
            (on CONNECTION 0 (on CONNECTION 1 (on CONNECTION 1 connected)))) = Some 2"
  by (simp add: two_subscribers_def connected_def mutating_def reregistering_def model_defs
      forEach.simps)

text \<open>
  C5, as amended. An emission walks the live set of the event, not a snapshot of it.
  When no subscriber of the event registers or unregisters a callback for that same
  event, the emission returns and has called exactly the callbacks registered when it
  started, each once, in registration order, which is what an emission over a snapshot
  does.
\<close>

theorem emit_live_when_quiet:
  "quiet P event s \<Longrightarrow>
     respondToCallbacks P event data s = Some (emit_snapshot P event data s)
     \<and> trace (emit_snapshot P event data s)
         = trace s @ map (\<lambda>c. Called event c data) (subscribers event s)"
proof
  assume "quiet P event s"
  then show "respondToCallbacks P event data s = Some (emit_snapshot P event data s)"
    by (rule respond_quiet)
next
  show "trace (emit_snapshot P event data s)
      = trace s @ map (\<lambda>c. Called event c data) (subscribers event s)"
    by (rule trace_emit_snapshot)
qed

theorem emit_live_when_quiet_witness:
  "quiet readme CONNECTION two_subscribers
   \<and> respondToCallbacks readme CONNECTION This two_subscribers
       = Some (emit_snapshot readme CONNECTION This two_subscribers)
   \<and> trace (emit_snapshot readme CONNECTION This two_subscribers)
       = [Factory ''ws://localhost'', Called CONNECTION 0 This, Called CONNECTION 1 This]"
proof -
  have q: "quiet readme CONNECTION two_subscribers"
    by (simp add: two_subscribers_eq connected_def readme_def quiet_def model_defs)
  have "trace two_subscribers @ map (\<lambda>c. Called CONNECTION c This) (subscribers CONNECTION two_subscribers)
      = [Factory ''ws://localhost'', Called CONNECTION 0 This, Called CONNECTION 1 This]"
    by (simp add: two_subscribers_eq connected_def model_defs)
  then show ?thesis
    using q emit_live_when_quiet [OF q, of This] by simp
qed

text \<open>
  C5, as the claim states it, fails. Callbacks 0 and 1 are registered for \<open>CONNECTION\<close>;
  callback 0 unregisters 1 and registers 2. The emission in progress calls 0 and then 2:
  it passes over callback 1, which was registered when the emission started, and calls
  callback 2, which was not. An emission over a snapshot would call 0 and 1.
\<close>

theorem emit_snapshot_counterexample:
  "subscribers CONNECTION two_subscribers = [0, 1]
   \<and> map_option (calls CONNECTION) (respondToCallbacks mutating CONNECTION This two_subscribers)
       = Some [(0, This), (2, This)]
   \<and> calls CONNECTION (emit_snapshot mutating CONNECTION This two_subscribers)
       = [(0, This), (1, This)]"
  by (simp add: two_subscribers_eq connected_def mutating_def emit_snapshot_def model_defs
      forEach.simps)

section \<open>What an emission leaves alone\<close>

lemma frame_refl: "frame e d s s"
  unfolding frame_def by (rule exI[of _ "callbacks s"], rule exI[of _ "[]"]) simp

lemma run_action_frame: "\<exists>cbs. run_action a s = s\<lparr>callbacks := cbs\<rparr>"
proof (cases a)
  case (CallOn e c)
  then show ?thesis
    by (cases "map_of (callbacks s) e") (auto simp: on_def)
next
  case (CallOff e c)
  show ?thesis
  proof (cases "map_of (callbacks s) e")
    case None
    then have "run_action a s = s\<lparr>callbacks := callbacks s\<rparr>" by (simp add: CallOff off_def)
    then show ?thesis by blast
  next
    case (Some es)
    then show ?thesis by (auto simp: CallOff off_def)
  qed
qed

lemma fold_run_action_frame: "\<exists>cbs. fold run_action as s = s\<lparr>callbacks := cbs\<rparr>"
proof (induction as arbitrary: s)
  case Nil
  have "fold run_action [] s = s\<lparr>callbacks := callbacks s\<rparr>" by simp
  then show ?case by blast
next
  case (Cons a as)
  obtain cbs where a: "run_action a s = s\<lparr>callbacks := cbs\<rparr>"
    using run_action_frame by blast
  obtain cbs' where "fold run_action as (s\<lparr>callbacks := cbs\<rparr>) = s\<lparr>callbacks := cbs\<rparr>\<lparr>callbacks := cbs'\<rparr>"
    using Cons.IH by blast
  then have "fold run_action (a # as) s = s\<lparr>callbacks := cbs'\<rparr>" by (simp add: a)
  then show ?case by blast
qed

lemma call_frame: "\<exists>cbs. call P e c d s = s\<lparr>callbacks := cbs, trace := trace s @ [Called e c d]\<rparr>"
proof -
  obtain cbs where "fold run_action (cb_body P c) (s\<lparr>trace := trace s @ [Called e c d]\<rparr>)
      = s\<lparr>trace := trace s @ [Called e c d]\<rparr>\<lparr>callbacks := cbs\<rparr>"
    using fold_run_action_frame by blast
  then have "call P e c d s = s\<lparr>callbacks := cbs, trace := trace s @ [Called e c d]\<rparr>"
    by (simp add: call_def)
  then show ?thesis by blast
qed

lemma frame_call: "frame e d (call P e c d s) s' \<Longrightarrow> frame e d s s'"
proof -
  assume "frame e d (call P e c d s) s'"
  then obtain cbs cs where s': "s' = (call P e c d s)\<lparr>callbacks := cbs, trace := trace (call P e c d s) @ map (\<lambda>c. Called e c d) cs\<rparr>"
    unfolding frame_def by blast
  obtain cbs0 where c: "call P e c d s = s\<lparr>callbacks := cbs0, trace := trace s @ [Called e c d]\<rparr>"
    using call_frame by blast
  have "s' = s\<lparr>callbacks := cbs, trace := trace s @ map (\<lambda>c. Called e c d) (c # cs)\<rparr>"
    unfolding s' c by simp
  then show ?thesis unfolding frame_def by blast
qed

lemma forEach_frame:
  assumes "forEach P e d i s = Some s'"
  shows "frame e d s s'"
proof -
  have "(\<lambda>((((P, e), d), i), s) s'. frame e d s s') ((((P, e), d), i), s) s'"
  proof (rule forEach.raw_induct[OF _ assms], goal_cases)
    case (1 f P e d i s s')
    have IH: "f P' e' d' i' t = Some y \<Longrightarrow> frame e' d' t y" for P' e' d' i' t y
      using 1(1)[of P' e' d' i' t y] by simp
    have "frame e d s s'"
    proof (cases "map_of (callbacks s) e")
      case None
      with 1(2) show ?thesis by (simp add: frame_refl)
    next
      case (Some es)
      show ?thesis
      proof (cases "i < length es")
        case False
        with 1(2) Some show ?thesis by (simp add: frame_refl)
      next
        case True
        show ?thesis
        proof (cases "es ! i")
          case None
          with 1(2) Some True show ?thesis by (simp add: IH)
        next
          case (Some c)
          with 1(2) \<open>map_of (callbacks s) e = Some es\<close> True
          have "f P e d (i + 1) (call P e c d s) = Some s'" by simp
          then show ?thesis by (rule frame_call[OF IH])
        qed
      qed
    qed
    then show ?case by simp
  qed
  then show ?thesis by simp
qed

lemma respond_frame: "respondToCallbacks P e d s = Some s' \<Longrightarrow> frame e d s s'"
  by (cases "map_of (callbacks s) e") (auto simp: respondToCallbacks_def frame_refl forEach_frame)

lemma clear_both:
  "clearInterval (pingTimeout_timer s) (clearTimeout (pongTimeout_timer s) s)
     = s\<lparr>timers := filter (\<lambda>x. Some (fst x) \<noteq> pingTimeout_timer s \<and> Some (fst x) \<noteq> pongTimeout_timer s) (timers s)\<rparr>"
  by (cases "pingTimeout_timer s"; cases "pongTimeout_timer s")
     (simp_all add: clearInterval_def clearTimeout_def conj_commute)

lemma close_unfold:
  "close P s =
     (case socket s of
        None \<Rightarrow> Some (Throws TypeError
          (s\<lparr>timers := filter (\<lambda>x. Some (fst x) \<noteq> pingTimeout_timer s \<and> Some (fst x) \<noteq> pongTimeout_timer s) (timers s)\<rparr>))
      | Some sock \<Rightarrow>
          map_option Returns (respondToCallbacks P CLOSE This
            (s\<lparr>timers := filter (\<lambda>x. Some (fst x) \<noteq> pingTimeout_timer s \<and> Some (fst x) \<noteq> pongTimeout_timer s) (timers s),
               listeners := removeAll (sock, OnClose) (removeAll (sock, OnOpen)
                  (removeAll (sock, OnMessage) (removeAll (sock, OnError) (listeners s)))),
               trace := trace s @ [SocketClose sock]\<rparr>)))"
proof -
  have p: "pingTimeout_timer (clearTimeout (pongTimeout_timer s) s) = pingTimeout_timer s"
    by (simp add: clearTimeout_def split: option.splits)
  show ?thesis
    unfolding close_def Let_def p clear_both
    by (simp add: removeEventListener_def socket_close_def split: option.splits)
qed


section \<open>The public methods\<close>

text \<open>
  C3, as amended. \<^verbatim>\<open>close()\<close> is idempotent on the wrapper's own state, not in what
  it does to its collaborators. After one \<^verbatim>\<open>close()\<close> that returned, a second
  \<^verbatim>\<open>close()\<close> is exactly one more call of the transport's \<^verbatim>\<open>close\<close> followed by
  one more emission of \<open>CLOSE\<close>: the subscribers of \<open>CLOSE\<close> are called again (each
  once, in order, when they leave the set of \<open>CLOSE\<close> alone), and nothing else changes:
  timers, listeners, the handle, the options and the timer handles stay as the first
  call left them.
\<close>

theorem close_twice:
  assumes "close P s = Some (Returns s1)"
  shows "\<exists>sock. socket s1 = Some sock
     \<and> close P s1 = map_option Returns (respondToCallbacks P CLOSE This (socket_close sock s1))
     \<and> (quiet P CLOSE s1 \<longrightarrow>
          close P s1 = Some (Returns (emit_snapshot P CLOSE This (socket_close sock s1)))
          \<and> trace (emit_snapshot P CLOSE This (socket_close sock s1))
              = trace s1 @ SocketClose sock # map (\<lambda>c. Called CLOSE c This) (subscribers CLOSE s1))
     \<and> (\<forall>s2. close P s1 = Some (Returns s2) \<longrightarrow>
          (\<exists>cbs cs. s2 = s1\<lparr>callbacks := cbs,
             trace := trace s1 @ SocketClose sock # map (\<lambda>c. Called CLOSE c This) cs\<rparr>))"
proof -
  from assms obtain sock where sock: "socket s = Some sock"
    by (cases "socket s") (simp_all add: close_unfold)
  define s7 where "s7 = s\<lparr>timers := filter (\<lambda>x. Some (fst x) \<noteq> pingTimeout_timer s \<and> Some (fst x) \<noteq> pongTimeout_timer s) (timers s),
               listeners := removeAll (sock, OnClose) (removeAll (sock, OnOpen)
                  (removeAll (sock, OnMessage) (removeAll (sock, OnError) (listeners s)))),
               trace := trace s @ [SocketClose sock]\<rparr>"
  from assms sock have "respondToCallbacks P CLOSE This s7 = Some s1"
    by (auto simp: close_unfold s7_def)
  then have "frame CLOSE This s7 s1" by (rule respond_frame)
  then obtain cbs cs where s1: "s1 = s7\<lparr>callbacks := cbs, trace := trace s7 @ map (\<lambda>c. Called CLOSE c This) cs\<rparr>"
    unfolding frame_def by blast
  have a: "socket s1 = Some sock"
    by (simp add: s1 s7_def sock)
  have t: "s1\<lparr>timers := filter (\<lambda>x. Some (fst x) \<noteq> pingTimeout_timer s1 \<and> Some (fst x) \<noteq> pongTimeout_timer s1) (timers s1),
               listeners := removeAll (sock, OnClose) (removeAll (sock, OnOpen)
                  (removeAll (sock, OnMessage) (removeAll (sock, OnError) (listeners s1)))),
               trace := trace s1 @ [SocketClose sock]\<rparr> = socket_close sock s1"
    by (simp add: s1 s7_def socket_close_def)
  have b: "close P s1 = map_option Returns (respondToCallbacks P CLOSE This (socket_close sock s1))"
    by (simp add: close_unfold a t)
  have c: "\<exists>cbs cs. s2 = s1\<lparr>callbacks := cbs,
             trace := trace s1 @ SocketClose sock # map (\<lambda>c. Called CLOSE c This) cs\<rparr>"
    if "close P s1 = Some (Returns s2)" for s2
  proof -
    from that b have "respondToCallbacks P CLOSE This (socket_close sock s1) = Some s2"
      by auto
    then have "frame CLOSE This (socket_close sock s1) s2" by (rule respond_frame)
    then obtain cbs' cs' where "s2 = (socket_close sock s1)\<lparr>callbacks := cbs', trace := trace (socket_close sock s1) @ map (\<lambda>c. Called CLOSE c This) cs'\<rparr>"
      unfolding frame_def by blast
    then have "s2 = s1\<lparr>callbacks := cbs', trace := trace s1 @ SocketClose sock # map (\<lambda>c. Called CLOSE c This) cs'\<rparr>"
      by (simp add: socket_close_def)
    then show ?thesis by blast
  qed
  have q: "quiet P CLOSE (socket_close sock s1) = quiet P CLOSE s1"
    "subscribers CLOSE (socket_close sock s1) = subscribers CLOSE s1"
    by (simp_all add: quiet_def subscribers_def socket_close_def)
  have d: "close P s1 = Some (Returns (emit_snapshot P CLOSE This (socket_close sock s1)))
          \<and> trace (emit_snapshot P CLOSE This (socket_close sock s1))
              = trace s1 @ SocketClose sock # map (\<lambda>c. Called CLOSE c This) (subscribers CLOSE s1)"
    if "quiet P CLOSE s1"
    using that by (simp add: b q respond_quiet trace_emit_snapshot) (simp add: socket_close_def)
  from a b c d show ?thesis by blast
qed

theorem close_twice_witness:
  "execute plain [DoOn CLOSE 9] connected = Some watched
   \<and> close plain watched = Some (Returns closed_once)
   \<and> socket closed_once = Some 0
   \<and> quiet plain CLOSE closed_once
   \<and> close plain closed_once
       = Some (Returns (emit_snapshot plain CLOSE This (socket_close 0 closed_once)))
   \<and> trace (emit_snapshot plain CLOSE This (socket_close 0 closed_once))
       = [Factory ''ws://localhost'', SocketClose 0, Called CLOSE 9 This,
          SocketClose 0, Called CLOSE 9 This]"
proof -
  have h: "close plain watched = Some (Returns closed_once)"
    by (simp add: watched_def closed_once_def connected_def model_defs forEach.simps)
  have q: "quiet plain CLOSE closed_once"
    by (simp add: watched_def closed_once_def connected_def quiet_def model_defs)
  have t: "trace closed_once @ SocketClose 0 # map (\<lambda>c. Called CLOSE c This) (subscribers CLOSE closed_once)
      = [Factory ''ws://localhost'', SocketClose 0, Called CLOSE 9 This,
          SocketClose 0, Called CLOSE 9 This]"
    by (simp add: watched_def closed_once_def connected_def model_defs)
  have k: "socket closed_once = Some 0"
    by (simp add: watched_def closed_once_def connected_def)
  from close_twice [OF h] obtain sock where
    s: "socket closed_once = Some sock" and
    c: "quiet plain CLOSE closed_once \<longrightarrow>
          close plain closed_once
            = Some (Returns (emit_snapshot plain CLOSE This (socket_close sock closed_once)))
          \<and> trace (emit_snapshot plain CLOSE This (socket_close sock closed_once))
              = trace closed_once @ SocketClose sock
                  # map (\<lambda>c. Called CLOSE c This) (subscribers CLOSE closed_once)"
    by blast
  from s k have "sock = 0" by simp
  moreover have "execute plain [DoOn CLOSE 9] connected = Some watched"
    by (simp add: watched_def connected_def model_defs)
  ultimately show ?thesis using c q t h k by simp
qed

text \<open>
  C3, as the claim states it, fails. With callback 9 subscribed to \<open>CLOSE\<close>, one
  \<^verbatim>\<open>close()\<close> calls the transport's \<^verbatim>\<open>close\<close> once and callback 9 once; a second
  \<^verbatim>\<open>close()\<close> calls the transport's \<^verbatim>\<open>close\<close> a second time and callback 9 a second
  time.
\<close>

theorem close_twice_counterexample:
  "map_option (\<lambda>s. (closes s, calls CLOSE s)) (execute plain [DoClose] watched)
     = Some ([0], [(9, This)])
   \<and> map_option (\<lambda>s. (closes s, calls CLOSE s)) (execute plain [DoClose, DoClose] watched)
     = Some ([0, 0], [(9, This), (9, This)])"
  by (simp add: watched_def connected_def model_defs forEach.simps)

text \<open>
  C4, as amended. \<^verbatim>\<open>send\<close> has no guard. With no handle (\<^verbatim>\<open>this.socket\<close> undefined,
  as after construction with \<^verbatim>\<open>autoConnect: false\<close>) it throws the TypeError of the
  property read to its caller, for every payload; nothing is sent and the state is
  unchanged.
\<close>

theorem send_without_handle:
  "(socket s = None \<longrightarrow> send P data s = Throws TypeError s)
   \<and> (given_autoConnect g = Some False \<longrightarrow>
        (\<exists>s0. constructor P u g = Some s0 \<and> socket s0 = None \<and> trace s0 = []
           \<and> send P data s0 = Throws TypeError s0))"
  by (simp add: send_def constructor_def initial_def spread_def Let_def)

theorem send_without_handle_witness:
  "constructor plain ''ws://localhost'' (no_options\<lparr>given_autoConnect := Some False\<rparr>) = Some idle
   \<and> socket idle = None
   \<and> send plain (Text ''yo'') idle = Throws TypeError idle"
  using send_without_handle
    [of idle plain "Text ''yo''" "no_options\<lparr>given_autoConnect := Some False\<rparr>" "''ws://localhost''"]
  by (simp add: idle_def model_defs)

text \<open>
  C4, as the claim states it, fails: what \<^verbatim>\<open>send\<close> raises without a handle is a
  TypeError, not a \<open>NotConnected\<close> condition.
\<close>

theorem send_not_connected_counterexample:
  "constructor plain ''ws://localhost'' (no_options\<lparr>given_autoConnect := Some False\<rparr>) = Some idle
   \<and> send plain (Text ''yo'') idle = Throws TypeError idle
   \<and> send plain (Text ''yo'') idle \<noteq> Throws NotConnected idle"
  by (simp add: idle_def model_defs)

section \<open>The keepalive\<close>

text \<open>
  C7, as amended. A payload is recognised as a pong exactly when the keepalive is enabled
  and the payload is strictly equal (\<^verbatim>\<open>===\<close>) to the configured pong message: for a
  text pong message, exactly when the payload is that same text, never by prefix or
  pattern; for a structured pong message, exactly when the payload is that very object
  (the same reference). A recognised payload goes to \<^verbatim>\<open>pongReceived\<close>; any other
  payload is delivered to the subscribers of \<open>MESSAGE\<close>.
\<close>

theorem pong_recognised_by_strict_equality:
  "(is_pong (options s) data \<longleftrightarrow>
      pingEnabled (options s)
      \<and> (case pongMessage (options s) of
            Text p \<Rightarrow> data = Text p
          | Object r c \<Rightarrow> (\<exists>c'. data = Object r c')))
   \<and> (is_pong (options s) data \<longrightarrow> onMessage P data s = map_option Returns (pongReceived P s))
   \<and> (\<not> is_pong (options s) data \<longrightarrow>
        onMessage P data s =
          (if autoJsonify (options s) then
             (case json_parse P data of
                None \<Rightarrow> Some (Throws SyntaxError s)
              | Some message \<Rightarrow>
                  map_option Returns (respondToCallbacks P MESSAGE (Message message) s))
           else map_option Returns (respondToCallbacks P MESSAGE (Message data) s)))"
proof -
  have "strict_eq data q \<longleftrightarrow>
      (case q of Text p \<Rightarrow> data = Text p | Object r c \<Rightarrow> (\<exists>c'. data = Object r c'))" for q
    by (cases data; cases q) auto
  then show ?thesis
    by (simp add: is_pong_def onMessage_def)
qed

theorem pong_recognised_by_strict_equality_witness:
  "Option.bind (constructor plain ''ws://localhost'' (no_options\<lparr>given_pingEnabled := Some True\<rparr>))
     (execute plain [DoOn MESSAGE 3, DoOn PONG 4]) = Some textual
   \<and> is_pong (options textual) (Text ''PONG'')
   \<and> onMessage plain (Text ''PONG'') textual = map_option Returns (pongReceived plain textual)
   \<and> \<not> is_pong (options textual) (Text ''PONGS'')
   \<and> onMessage plain (Text ''PONGS'') textual
       = map_option Returns (respondToCallbacks plain MESSAGE (Message (Text ''PONGS'')) textual)"
  using pong_recognised_by_strict_equality [of textual "Text ''PONG''" plain]
    pong_recognised_by_strict_equality [of textual "Text ''PONGS''" plain]
  by (simp add: textual_def connected_def model_defs)

text \<open>
  C7, as the claim states it, fails. The pong message is an object with the property
  \<open>type: 'pong'\<close>; the payload is another object with the same content. The two are
  value-equal, and the payload is not recognised: it is delivered to the subscriber of
  \<open>MESSAGE\<close>, the subscriber of \<open>PONG\<close> is not called and no ping is scheduled.
\<close>

theorem pong_value_equality_counterexample:
  "Option.bind
     (constructor plain ''ws://localhost''
        (no_options\<lparr>given_pingEnabled := Some True, given_pongMessage := Some pong_object\<rparr>))
     (execute plain [DoOn MESSAGE 3, DoOn PONG 4]) = Some structured
   \<and> value_equal (Object 2 [(''type'', ''pong'')]) (pongMessage (options structured))
   \<and> pingEnabled (options structured)
   \<and> \<not> is_pong (options structured) (Object 2 [(''type'', ''pong'')])
   \<and> map_option (\<lambda>r. (calls MESSAGE (state_of r), calls PONG (state_of r), timers (state_of r)))
       (onMessage plain (Object 2 [(''type'', ''pong'')]) structured)
       = Some ([(3, Message (Object 2 [(''type'', ''pong'')]))], [], [])"
  by (simp add: structured_def pong_object_def connected_def onMessage_def model_defs
      forEach.simps)







lemma respond_quiet_record:
  assumes "quiet P e s"
  shows "\<exists>cbs. respondToCallbacks P e d s
     = Some (s\<lparr>callbacks := cbs, trace := trace s @ map (\<lambda>c. Called e c d) (subscribers e s)\<rparr>)"
proof -
  have r: "respondToCallbacks P e d s = Some (emit_snapshot P e d s)"
    using assms by (rule respond_quiet)
  then have "frame e d s (emit_snapshot P e d s)" by (rule respond_frame)
  then obtain cbs cs where
    e: "emit_snapshot P e d s = s\<lparr>callbacks := cbs, trace := trace s @ map (\<lambda>c. Called e c d) cs\<rparr>"
    unfolding frame_def by blast
  then have "trace (emit_snapshot P e d s) = trace s @ map (\<lambda>c. Called e c d) cs" 
    by simp
  then have "map (\<lambda>c. Called e c d) cs = map (\<lambda>c. Called e c d) (subscribers e s)"
    by (simp add: trace_emit_snapshot)
  with e r show ?thesis by auto
qed





text \<open>
  C9, as amended. A ping has been sent and its pong timeout is the only timer queued (no
  other ping is scheduled and no other pong timeout is pending). When a message equal to
  the pong message arrives before that timeout has run, the handler returns; the
  subscribers of \<open>PONG\<close> are called; the pong timeout is cancelled, so that the keepalive
  does not close the transport; the only timer left is the next ping, due one full
  \<^verbatim>\<open>pingInterval\<close> after the arrival: advancing the clock by less makes no call on the
  transport, and advancing it by \<^verbatim>\<open>pingInterval\<close> sends exactly one ping.
\<close>

theorem pong_in_time:
  assumes "pingEnabled (options s)" "strict_eq data (pongMessage (options s))"
    and "socket s = Some sock"
    and "timers s = [(t, due, PongFire)]" "pongTimeout_timer s = Some t"
    and "quiet P PONG s"
  shows "\<exists>s'. onMessage P data s = Some (Returns s')
     \<and> trace s' = trace s @ map (\<lambda>c. Called PONG c This) (subscribers PONG s)
     \<and> timers s' = [(next_timer s, now s + pingInterval (options s), PingFire)]
     \<and> (\<forall>ms. ms < pingInterval (options s) \<longrightarrow>
           (\<exists>s''. tick P ms s' = Some s'' \<and> trace s'' = trace s' \<and> timers s'' = timers s'))
     \<and> (\<exists>s''. tick P (pingInterval (options s)) s' = Some s''
           \<and> trace s'' = trace s' @
               SocketSend sock (if autoJsonify (options s) then json_stringify P (pingMessage (options s))
                                else pingMessage (options s))
               # (if pongTimeout (options s) = 0 then [SocketClose sock] else []))"
proof -
  let ?sc = "clearTimeout (pongTimeout_timer s) s"
  have sc: "?sc = s\<lparr>timers := []\<rparr>"
    using assms by (simp add: clearTimeout_def)
  have "quiet P PONG ?sc" "subscribers PONG ?sc = subscribers PONG s" "trace ?sc = trace s"
    using assms(6) by (simp_all add: sc quiet_def subscribers_def)
  with respond_quiet_record[of P PONG ?sc This] obtain cbs where
    r: "respondToCallbacks P PONG This ?sc = Some (?sc\<lparr>callbacks := cbs,
        trace := trace s @ map (\<lambda>c. Called PONG c This) (subscribers PONG s)\<rparr>)"
    by auto
  define s' where "s' = sendPing (?sc\<lparr>callbacks := cbs,
        trace := trace s @ map (\<lambda>c. Called PONG c This) (subscribers PONG s)\<rparr>)"
  have a: "onMessage P data s = Some (Returns s')"
    using assms(1,2) r by (simp add: onMessage_def is_pong_def pongReceived_def s'_def)
  have e: "s' = s\<lparr>callbacks := cbs,
      trace := trace s @ map (\<lambda>c. Called PONG c This) (subscribers PONG s),
      timers := [(next_timer s, now s + pingInterval (options s), PingFire)],
      next_timer := next_timer s + 1, pingTimeout_timer := Some (next_timer s)\<rparr>"
    by (simp add: s'_def sc sendPing_def setTimeout_def)
  have b: "\<exists>s''. tick P ms s' = Some s'' \<and> trace s'' = trace s' \<and> timers s'' = timers s'"
    if "ms < pingInterval (options s)" for ms
    using that by (simp add: e tick_def run_until.simps)
  have c: "\<exists>s''. tick P (pingInterval (options s)) s' = Some s''
           \<and> trace s'' = trace s' @
               SocketSend sock (if autoJsonify (options s) then json_stringify P (pingMessage (options s))
                                else pingMessage (options s))
               # (if pongTimeout (options s) = 0 then [SocketClose sock] else [])"
    using assms(3)
    by (simp add: e tick_def run_until.simps ping_closure_def send_def socket_send_def
        setTimeout_def pongTimedOut_def socket_close_def)
  from a b c e show ?thesis by auto
qed

theorem pong_in_time_witness:
  "execute plain [DoOn PONG 4, Event 0 Open, Tick 50, Tick 10] pinging = Some awaiting
   \<and> pingEnabled (options awaiting)
   \<and> strict_eq (Text ''PONGYOU'') (pongMessage (options awaiting))
   \<and> socket awaiting = Some 0
   \<and> timers awaiting = [(1, 100, PongFire)]
   \<and> pongTimeout_timer awaiting = Some 1
   \<and> quiet plain PONG awaiting
   \<and> (\<exists>s'. onMessage plain (Text ''PONGYOU'') awaiting = Some (Returns s')
        \<and> trace s' = [Factory ''ws://localhost'', SocketSend 0 (Text ''PINGME''), Called PONG 4 This]
        \<and> timers s' = [(2, 110, PingFire)]
        \<and> (\<exists>s''. tick plain 49 s' = Some s'' \<and> trace s'' = trace s')
        \<and> (\<exists>s''. tick plain 50 s' = Some s''
              \<and> trace s'' = [Factory ''ws://localhost'', SocketSend 0 (Text ''PINGME''),
                    Called PONG 4 This, SocketSend 0 (Text ''PINGME'')]))"
proof -
  have h: "pingEnabled (options awaiting)"
    "strict_eq (Text ''PONGYOU'') (pongMessage (options awaiting))"
    "socket awaiting = Some 0" "timers awaiting = [(1, 100, PongFire)]"
    "pongTimeout_timer awaiting = Some 1"
    by (simp_all add: awaiting_def pinging_def connected_def defaultOptions_def)
  have q: "quiet plain PONG awaiting"
    by (simp add: awaiting_def pinging_def connected_def quiet_def model_defs)
  have v: "trace awaiting @ map (\<lambda>c. Called PONG c This) (subscribers PONG awaiting)
       = [Factory ''ws://localhost'', SocketSend 0 (Text ''PINGME''), Called PONG 4 This]"
    "next_timer awaiting = 2" "now awaiting = 60"
    "pingInterval (options awaiting) = 50" "pongTimeout (options awaiting) = 50"
    "\<not> autoJsonify (options awaiting)" "pingMessage (options awaiting) = Text ''PINGME''"
    by (simp_all add: awaiting_def pinging_def connected_def model_defs)
  have "\<exists>s'. onMessage plain (Text ''PONGYOU'') awaiting = Some (Returns s')
     \<and> trace s' = [Factory ''ws://localhost'', SocketSend 0 (Text ''PINGME''), Called PONG 4 This]
     \<and> timers s' = [(2, 110, PingFire)]
     \<and> (\<forall>ms. ms < 50 \<longrightarrow>
           (\<exists>s''. tick plain ms s' = Some s'' \<and> trace s'' = trace s' \<and> timers s'' = timers s'))
     \<and> (\<exists>s''. tick plain 50 s' = Some s''
           \<and> trace s'' = trace s' @ [SocketSend 0 (Text ''PINGME'')])"
    using pong_in_time [OF h q] by (simp add: v)
  then obtain s' where
    a: "onMessage plain (Text ''PONGYOU'') awaiting = Some (Returns s')"
    and b: "trace s' = [Factory ''ws://localhost'', SocketSend 0 (Text ''PINGME''), Called PONG 4 This]"
    and c: "timers s' = [(2, 110, PingFire)]"
    and d: "\<forall>ms. ms < 50 \<longrightarrow> (\<exists>s''. tick plain ms s' = Some s'' \<and> trace s'' = trace s' \<and> timers s'' = timers s')"
    and e: "\<exists>s''. tick plain 50 s' = Some s'' \<and> trace s'' = trace s' @ [SocketSend 0 (Text ''PINGME'')]"
    by blast
  have "(49::nat) < 50" by simp
  with d have "\<exists>s''. tick plain 49 s' = Some s'' \<and> trace s'' = trace s' \<and> timers s'' = timers s'"
    by blast
  then have f: "\<exists>s''. tick plain 49 s' = Some s'' \<and> trace s'' = trace s'"
    by blast
  from e b have g: "\<exists>s''. tick plain 50 s' = Some s''
              \<and> trace s'' = [Factory ''ws://localhost'', SocketSend 0 (Text ''PINGME''),
                    Called PONG 4 This, SocketSend 0 (Text ''PINGME'')]"
    by simp
  have r: "execute plain [DoOn PONG 4, Event 0 Open, Tick 50, Tick 10] pinging = Some awaiting"
    by (simp add: awaiting_def pinging_def connected_def model_defs run_until.simps
        forEach.simps)
  from a b c f g h q r show ?thesis by blast
qed

text \<open>
  C9, as the claim states it, fails. The wrapper of the keepalive tests opens at 0 and
  sends its ping at 50. The server answers that ping twice, at 60 and at 70, both within
  \<^verbatim>\<open>pongTimeout\<close> (50) of the ping. Each pong schedules a ping, due at 110 and at 120.
  After the pong that arrived at 70, the next ping goes out at 110, 40 after the arrival
  and not a full \<^verbatim>\<open>pingInterval\<close> (50). The pings of 110 and 120 each queue a pong
  timeout, and the handle of the first is overwritten: the pong that arrives at 125,
  within \<^verbatim>\<open>pongTimeout\<close> of both pings, cancels only the second, and at 160 the
  keepalive closes the transport.
\<close>

theorem pong_in_time_counterexample:
  "map_option (\<lambda>s. (now s, sends s, closes s)) (execute plain answered_twice pinging)
     = Some (70, [(0, Text ''PINGME'')], [])
   \<and> map_option (\<lambda>s. (now s, sends s, closes s)) (execute plain (answered_twice @ [Tick 40]) pinging)
     = Some (110, [(0, Text ''PINGME''), (0, Text ''PINGME'')], [])
   \<and> map_option (\<lambda>s. (now s, sends s, closes s, timers s))
       (execute plain (answered_twice @ [Tick 40, Tick 15, Event 0 (Msg (Text ''PONGYOU''))]) pinging)
     = Some (125, [(0, Text ''PINGME''), (0, Text ''PINGME''), (0, Text ''PINGME'')], [],
         [(4, 160, PongFire), (6, 175, PingFire)])
   \<and> map_option (\<lambda>s. (now s, closes s))
       (execute plain
          (answered_twice @ [Tick 40, Tick 15, Event 0 (Msg (Text ''PONGYOU'')), Tick 35]) pinging)
     = Some (160, [0])"
  by (simp add: answered_twice_def pinging_def connected_def model_defs run_until.simps
      forEach.simps)

section \<open>Reconnection\<close>

text \<open>
  C1, at the failing execution. The transport closes by itself, which queues the
  reconnect; the caller then calls \<^verbatim>\<open>close()\<close> while the reconnect is still pending.
  \<^verbatim>\<open>close()\<close> clears the two keepalive timers and removes the listeners, and leaves the
  reconnect queued: when the clock passes \<^verbatim>\<open>reconnectInterval\<close> the factory is called
  again and the wrapper holds a new transport with all four listeners registered. With
  no reconnect pending, \<^verbatim>\<open>close()\<close> is followed by no call of the factory.
\<close>

theorem reconnect_after_close:
  "constructor plain ''ws://localhost'' no_options = Some connected
   \<and> map_option (\<lambda>s. (factory_calls s, closes s, timers s))
       (execute plain [Event 0 (Closed 1006), DoClose] connected)
     = Some (1, [0], [(0, 1000, Reconnect)])
   \<and> map_option (\<lambda>s. (factory_calls s, socket s, listeners s))
       (execute plain [Event 0 (Closed 1006), DoClose, Tick 1000] connected)
     = Some (2, Some 1, [(1, OnOpen), (1, OnMessage), (1, OnClose), (1, OnError)])
   \<and> map_option (\<lambda>s. (factory_calls s, timers s)) (execute plain [DoClose, Tick 1000] connected)
     = Some (1, [])"
  by (simp add: connected_def model_defs run_until.simps)

text \<open>
  C2, at the failing execution. With \<^verbatim>\<open>reconnectOnError\<close> (the default) transport 0
  fires \<open>error\<close> and then \<open>close\<close>. \<^verbatim>\<open>onError\<close> calls \<^verbatim>\<open>onClose\<close>, which queues a
  reconnect; the \<open>close\<close> event calls \<^verbatim>\<open>onClose\<close> again, which queues a second one. After
  the delay the factory has been called twice more, three times in all: transports 1 and
  2 both carry the wrapper's listeners and only transport 2 is its handle. A \<open>close\<close>
  event alone leads to one more call.
\<close>

theorem error_then_close_reconnects_twice:
  "constructor plain ''ws://localhost'' no_options = Some connected
   \<and> reconnectOnError (options connected)
   \<and> map_option timers (execute plain [Event 0 Errored, Event 0 (Closed 1006)] connected)
     = Some [(0, 1000, Reconnect), (1, 1000, Reconnect)]
   \<and> map_option (\<lambda>s. (factory_calls s, socket s, listeners s))
       (execute plain [Event 0 Errored, Event 0 (Closed 1006), Tick 1000] connected)
     = Some (3, Some 2,
         [(0, OnOpen), (0, OnMessage), (0, OnClose), (0, OnError),
          (1, OnOpen), (1, OnMessage), (1, OnClose), (1, OnError),
          (2, OnOpen), (2, OnMessage), (2, OnClose), (2, OnError)])
   \<and> map_option factory_calls (execute plain [Event 0 (Closed 1006), Tick 1000] connected)
     = Some 2"
  by (simp add: connected_def model_defs run_until.simps)

section \<open>The sets of the registry stay sets\<close>

text \<open>
  A \<^verbatim>\<open>Set\<close> holds each callback once. The model keeps this in every state the wrapper
  can reach: it holds after the constructor and every step of an execution keeps it.
\<close>

lemma members_set_delete: "members (set_delete c es) = filter (\<lambda>x. x \<noteq> c) (members es)"
  by (induction es) (auto simp: members_def set_delete_def split: option.splits)

lemma subscribers_off:
  "subscribers e' (off e c s) =
     (if e' = e then filter (\<lambda>x. x \<noteq> c) (subscribers e s) else subscribers e' s)"
  by (auto simp: subscribers_def map_of_off members_set_delete split: option.splits)

lemma sets_ok_on: "sets_ok s \<Longrightarrow> sets_ok (on e c s)"
  by (simp add: sets_ok_def subscribers_on)

lemma sets_ok_off: "sets_ok s \<Longrightarrow> sets_ok (off e c s)"
  by (simp add: sets_ok_def subscribers_off)

lemma sets_ok_run_action: "sets_ok s \<Longrightarrow> sets_ok (run_action a s)"
  by (cases a) (simp_all add: sets_ok_on sets_ok_off)

lemma sets_ok_fold: "sets_ok s \<Longrightarrow> sets_ok (fold run_action as s)"
  by (induction as arbitrary: s) (simp_all add: sets_ok_run_action)

lemma sets_ok_call: "sets_ok s \<Longrightarrow> sets_ok (call P e c d s)"
proof -
  assume "sets_ok s"
  then have "sets_ok (s\<lparr>trace := trace s @ [Called e c d]\<rparr>)"
    by (simp add: sets_ok_def subscribers_def)
  then show ?thesis
    unfolding call_def by (rule sets_ok_fold)
qed

lemma sets_ok_forEach:
  assumes "forEach P e d i s = Some s'" and "sets_ok s"
  shows "sets_ok s'"
proof -
  have "(\<lambda>((((P, e), d), i), s) s'. sets_ok s \<longrightarrow> sets_ok s') ((((P, e), d), i), s) s'"
  proof (rule forEach.raw_induct[OF _ assms(1)], goal_cases)
    case (1 f P e d i s s')
    have IH: "f P' e' d' i' t = Some y \<Longrightarrow> sets_ok t \<Longrightarrow> sets_ok y" for P' e' d' i' t y
      using 1(1)[of P' e' d' i' t y] by simp
    have "sets_ok s'" if ok: "sets_ok s"
    proof (cases "map_of (callbacks s) e")
      case None
      with 1(2) ok show ?thesis by simp
    next
      case (Some es)
      show ?thesis
      proof (cases "i < length es")
        case False
        with 1(2) Some ok show ?thesis by simp
      next
        case True
        show ?thesis
        proof (cases "es ! i")
          case None
          with 1(2) \<open>map_of (callbacks s) e = Some es\<close> True
          have "f P e d (i + 1) s = Some s'" by simp
          then show ?thesis using ok by (rule IH)
        next
          case (Some c)
          with 1(2) \<open>map_of (callbacks s) e = Some es\<close> True
          have "f P e d (i + 1) (call P e c d s) = Some s'" by simp
          moreover have "sets_ok (call P e c d s)" using ok by (rule sets_ok_call)
          ultimately show ?thesis by (rule IH)
        qed
      qed
    qed
    then show ?case by simp
  qed
  with assms(2) show ?thesis by simp
qed

lemma sets_ok_respond:
  "respondToCallbacks P e d s = Some s' \<Longrightarrow> sets_ok s \<Longrightarrow> sets_ok s'"
proof (cases "map_of (callbacks s) e")
  case None
  then show "respondToCallbacks P e d s = Some s' \<Longrightarrow> sets_ok s \<Longrightarrow> sets_ok s'"
    by (simp add: respondToCallbacks_def)
next
  case (Some es)
  assume "respondToCallbacks P e d s = Some s'" and ok: "sets_ok s"
  with Some have "forEach P e d 0 s = Some s'" by (simp add: respondToCallbacks_def)
  then show "sets_ok s'" using ok by (rule sets_ok_forEach)
qed

lemma sets_ok_connect: "connect P s = Some (k, s') \<Longrightarrow> sets_ok s \<Longrightarrow> sets_ok s'"
proof -
  assume c: "connect P s = Some (k, s')" and ok: "sets_ok s"
  let ?s1 = "s\<lparr>next_socket := next_socket s + 1, trace := trace s @ [Factory (url s)]\<rparr>"
  from c obtain s2 where r: "respondToCallbacks P CONNECTING This ?s1 = Some s2"
    and s': "callbacks s' = callbacks s2"
    by (auto simp: connect_def wsFactory_def addEventListener_def split: option.splits if_splits)
  have "sets_ok ?s1" using ok by (simp add: sets_ok_def subscribers_def)
  with r have "sets_ok s2" by (rule sets_ok_respond)
  with s' show ?thesis by (simp add: sets_ok_def subscribers_def)
qed


lemma sets_ok_same: "callbacks s' = callbacks s \<Longrightarrow> sets_ok s \<Longrightarrow> sets_ok s'"
  by (simp add: sets_ok_def subscribers_def)

lemma callbacks_primitives:
  "callbacks (clearTimeout h s) = callbacks s"
  "callbacks (clearInterval h s) = callbacks s"
  "callbacks (snd (setTimeout a ms s)) = callbacks s"
  "callbacks (sendPing s) = callbacks s"
  "callbacks (socket_send k d s) = callbacks s"
  "callbacks (socket_close k s) = callbacks s"
  "callbacks (removeEventListener k l s) = callbacks s"
  "callbacks (addEventListener k l s) = callbacks s"
  by (simp_all add: clearTimeout_def clearInterval_def setTimeout_def sendPing_def
      socket_send_def socket_close_def removeEventListener_def addEventListener_def
      split: option.splits)

lemma sets_ok_onOpen: "onOpen P s = Some s' \<Longrightarrow> sets_ok s \<Longrightarrow> sets_ok s'"
proof -
  assume a: "onOpen P s = Some s'" and ok: "sets_ok s"
  from a obtain s1 where r: "respondToCallbacks P CONNECTION This s = Some s1"
    and s': "s' = (if pingEnabled (options s1) then sendPing s1 else s1)"
    by (auto simp: onOpen_def split: option.splits)
  from r ok have "sets_ok s1" by (rule sets_ok_respond)
  moreover have "callbacks s' = callbacks s1" by (simp add: s' callbacks_primitives)
  ultimately show ?thesis by (rule sets_ok_same[rotated])
qed

lemma sets_ok_onClose: "onClose P ev s = Some s' \<Longrightarrow> sets_ok s \<Longrightarrow> sets_ok s'"
proof -
  assume a: "onClose P ev s = Some s'" and ok: "sets_ok s"
  from a obtain s1 where r: "respondToCallbacks P CLOSE ev s = Some s1"
    and s': "callbacks s' = callbacks s1"
    by (auto simp: onClose_def Let_def callbacks_primitives split: option.splits)
  from r ok have "sets_ok s1" by (rule sets_ok_respond)
  with s' show ?thesis by (rule sets_ok_same)
qed

lemma sets_ok_onError: "onError P s = Some s' \<Longrightarrow> sets_ok s \<Longrightarrow> sets_ok s'"
proof -
  assume a: "onError P s = Some s'" and ok: "sets_ok s"
  from a obtain s1 where r: "respondToCallbacks P ERROR This s = Some s1"
    and s': "(if reconnectOnError (options s1) then onClose P Undefined s1 else Some s1) = Some s'"
    by (auto simp: onError_def split: option.splits)
  from r ok have ok1: "sets_ok s1" by (rule sets_ok_respond)
  show ?thesis
  proof (cases "reconnectOnError (options s1)")
    case True
    with s' have "onClose P Undefined s1 = Some s'" by simp
    then show ?thesis using ok1 by (rule sets_ok_onClose)
  next
    case False
    with s' ok1 show ?thesis by simp
  qed
qed

lemma sets_ok_pongReceived: "pongReceived P s = Some s' \<Longrightarrow> sets_ok s \<Longrightarrow> sets_ok s'"
proof -
  assume a: "pongReceived P s = Some s'" and ok: "sets_ok s"
  from a obtain s1 where
    r: "respondToCallbacks P PONG This (clearTimeout (pongTimeout_timer s) s) = Some s1"
    and s': "s' = sendPing s1"
    by (auto simp: pongReceived_def split: option.splits)
  have "sets_ok (clearTimeout (pongTimeout_timer s) s)"
    using _ ok by (rule sets_ok_same) (simp add: callbacks_primitives)
  with r have "sets_ok s1" by (rule sets_ok_respond)
  then show ?thesis
    unfolding s' using _ by (rule sets_ok_same[rotated]) (simp add: callbacks_primitives)
qed

lemma sets_ok_onMessage:
  "onMessage P data s = Some r \<Longrightarrow> sets_ok s \<Longrightarrow> sets_ok (state_of r)"
proof -
  assume a: "onMessage P data s = Some r" and ok: "sets_ok s"
  consider (pong) s' where "pongReceived P s = Some s'" "r = Returns s'"
    | (bad) "r = Throws SyntaxError s"
    | (msg) m s' where "respondToCallbacks P MESSAGE (Message m) s = Some s'" "r = Returns s'"
    using a by (auto simp: onMessage_def split: if_splits option.splits)
  then show ?thesis
  proof cases
    case pong
    from pong(1) ok have "sets_ok s'" by (rule sets_ok_pongReceived)
    with pong(2) show ?thesis by simp
  next
    case bad
    with ok show ?thesis by simp
  next
    case msg
    from msg(1) ok have "sets_ok s'" by (rule sets_ok_respond)
    with msg(2) show ?thesis by simp
  qed
qed

lemma sets_ok_close: "close P s = Some r \<Longrightarrow> sets_ok s \<Longrightarrow> sets_ok (state_of r)"
proof -
  assume a: "close P s = Some r" and ok: "sets_ok s"
  show ?thesis
  proof (cases "socket s")
    case None
    with a have "callbacks (state_of r) = callbacks s"
      by (auto simp: close_unfold)
    then show ?thesis using ok by (rule sets_ok_same)
  next
    case (Some sock)
    define s7 where "s7 = s\<lparr>timers := filter (\<lambda>x. Some (fst x) \<noteq> pingTimeout_timer s
          \<and> Some (fst x) \<noteq> pongTimeout_timer s) (timers s),
        listeners := removeAll (sock, OnClose) (removeAll (sock, OnOpen)
          (removeAll (sock, OnMessage) (removeAll (sock, OnError) (listeners s)))),
        trace := trace s @ [SocketClose sock]\<rparr>"
    have c: "callbacks s7 = callbacks s" by (simp add: s7_def)
    from a Some obtain s' where r: "respondToCallbacks P CLOSE This s7 = Some s'"
      and s': "r = Returns s'"
      by (auto simp: close_unfold s7_def)
    from c ok have "sets_ok s7" by (rule sets_ok_same)
    with r have "sets_ok s'" by (rule sets_ok_respond)
    with s' show ?thesis by simp
  qed
qed

lemma sets_ok_fire: "fire P a s = Some r \<Longrightarrow> sets_ok s \<Longrightarrow> sets_ok (state_of r)"
proof (cases a)
  case PingFire
  assume "fire P a s = Some r" and ok: "sets_ok s"
  with PingFire have "callbacks (state_of r) = callbacks s"
    by (auto simp: ping_closure_def send_def setTimeout_def socket_send_def split: option.splits)
  then show ?thesis using ok by (rule sets_ok_same)
next
  case PongFire
  assume "fire P a s = Some r" and ok: "sets_ok s"
  with PongFire have "callbacks (state_of r) = callbacks s"
    by (auto simp: pongTimedOut_def socket_close_def split: option.splits)
  then show ?thesis using ok by (rule sets_ok_same)
next
  case Reconnect
  assume "fire P a s = Some r" and ok: "sets_ok s"
  with Reconnect obtain k s1 where c: "connect P s = Some (k, s1)" and r: "r = Returns (s1\<lparr>socket := Some k\<rparr>)"
    by (auto simp: reconnect_closure_def split: option.splits)
  from c ok have "sets_ok s1" by (rule sets_ok_connect)
  then show ?thesis unfolding r by (simp add: sets_ok_def subscribers_def)
qed

lemma sets_ok_run_until:
  assumes "run_until P target s = Some s'" and "sets_ok s"
  shows "sets_ok s'"
proof -
  have "(\<lambda>((P, target), s) s'. sets_ok s \<longrightarrow> sets_ok s') ((P, target), s) s'"
  proof (rule run_until.raw_induct[OF _ assms(1)], goal_cases)
    case (1 f P target s s')
    have IH: "f P' g t = Some y \<Longrightarrow> sets_ok t \<Longrightarrow> sets_ok y" for P' g t y
      using 1(1)[of P' g t y] by simp
    have "sets_ok s'" if ok: "sets_ok s"
    proof (cases "earliest (filter (\<lambda>x. fst (snd x) \<le> target) (timers s))")
      case None
      with 1(2) have "s' = s\<lparr>now := target\<rparr>" by simp
      then show ?thesis using ok by (simp add: sets_ok_def subscribers_def)
    next
      case (Some x)
      obtain t due a where x: "x = (t, due, a)" by (cases x)
      let ?s0 = "s\<lparr>now := due, timers := filter (\<lambda>x. fst x \<noteq> t) (timers s)\<rparr>"
      from 1(2) Some x obtain r where r: "fire P a ?s0 = Some r"
        and f: "f P target (state_of r) = Some s'"
        by (auto split: option.splits)
      have "sets_ok ?s0" using ok by (simp add: sets_ok_def subscribers_def)
      with r have "sets_ok (state_of r)" by (rule sets_ok_fire)
      with f show ?thesis by (rule IH)
    qed
    then show ?case by simp
  qed
  with assms(2) show ?thesis by simp
qed

lemma sets_ok_perform: "perform P x s = Some r \<Longrightarrow> sets_ok s \<Longrightarrow> sets_ok (state_of r)"
proof (cases x)
  case DoConnect
  assume "perform P x s = Some r" and ok: "sets_ok s"
  with DoConnect obtain k s' where "connect P s = Some (k, s')" "r = Returns s'"
    by auto
  with ok show ?thesis by (auto dest: sets_ok_connect)
next
  case (DoSend d)
  assume "perform P x s = Some r" and ok: "sets_ok s"
  with DoSend have "callbacks (state_of r) = callbacks s"
    by (auto simp: send_def socket_send_def split: option.splits)
  then show ?thesis using ok by (rule sets_ok_same)
next
  case DoClose
  assume "perform P x s = Some r" and ok: "sets_ok s"
  with DoClose show ?thesis by (auto dest: sets_ok_close)
next
  case (DoOn e c)
  assume "perform P x s = Some r" and ok: "sets_ok s"
  with DoOn show ?thesis by (auto simp: sets_ok_on)
next
  case (DoOff e c)
  assume "perform P x s = Some r" and ok: "sets_ok s"
  with DoOff show ?thesis by (auto simp: sets_ok_off)
next
  case (Event k ev)
  assume a: "perform P x s = Some r" and ok: "sets_ok s"
  show ?thesis
  proof (cases ev)
    case Open
    with a Event ok show ?thesis by (auto split: if_splits dest: sets_ok_onOpen)
  next
    case (Msg d)
    with a Event ok show ?thesis by (auto split: if_splits dest: sets_ok_onMessage)
  next
    case (Closed n)
    with a Event ok show ?thesis by (auto split: if_splits dest: sets_ok_onClose)
  next
    case Errored
    with a Event ok show ?thesis by (auto split: if_splits dest: sets_ok_onError)
  qed
next
  case (Tick ms)
  assume "perform P x s = Some r" and ok: "sets_ok s"
  with Tick show ?thesis by (auto simp: tick_def dest: sets_ok_run_until)
qed

lemma sets_ok_execute: "execute P xs s = Some s' \<Longrightarrow> sets_ok s \<Longrightarrow> sets_ok s'"
proof (induction xs arbitrary: s)
  case Nil
  then show ?case by simp
next
  case (Cons x xs)
  from Cons.prems(1) obtain r where r: "perform P x s = Some r"
    and e: "execute P xs (state_of r) = Some s'"
    by (auto split: option.splits)
  from r Cons.prems(2) have "sets_ok (state_of r)" by (rule sets_ok_perform)
  with e show ?case by (rule Cons.IH)
qed

lemma sets_ok_constructor: "constructor P u g = Some s \<Longrightarrow> sets_ok s"
proof -
  assume a: "constructor P u g = Some s"
  have i: "sets_ok (initial u (spread defaultOptions g))"
    by (simp add: sets_ok_def subscribers_def initial_def)
  show ?thesis
  proof (cases "autoConnect (spread defaultOptions g)")
    case True
    with a obtain k s1 where c: "connect P (initial u (spread defaultOptions g)) = Some (k, s1)"
      and s: "s = s1\<lparr>socket := Some k\<rparr>"
      by (auto simp: constructor_def Let_def initial_def split: option.splits)
    from c i have "sets_ok s1" by (rule sets_ok_connect)
    then show ?thesis unfolding s by (simp add: sets_ok_def subscribers_def)
  next
    case False
    with a i show ?thesis by (simp add: constructor_def Let_def initial_def)
  qed
qed

lemma reachable_distinct:
  "constructor P u g = Some s0 \<Longrightarrow> execute P xs s0 = Some s \<Longrightarrow> distinct (subscribers e s)"
proof -
  assume "constructor P u g = Some s0" and x: "execute P xs s0 = Some s"
  then have "sets_ok s0" by (simp add: sets_ok_constructor)
  with x have "sets_ok s" by (rule sets_ok_execute)
  then show ?thesis by (simp add: sets_ok_def)
qed

end
